theory Spec2Isabelle
  imports Main "HOL-Library.Word"
begin

unbundle bit_operations_syntax

section \<open>Bytes, Python errors and the library calls of the frame codec\<close>

text \<open>
  A Python \<open>bytes\<close> or \<open>bytearray\<close> value is a list of 8-bit words; a Python \<open>str\<close> is the
  list of its Unicode code points. Every exception the server can raise is a value of
  \<open>error\<close> (\<open>OSError\<close> stands for any exception of \<open>socket.recv\<close>), and a function that
  can raise returns \<open>error + 'a\<close> with \<open>Inl\<close> for the exception.
\<close>

type_synonym byte = "8 word"

datatype error =
    StructError | IndexError | UnicodeEncodeError | KeyError | ValueError | OSError

text \<open>
  \<open>struct.pack\<close> with a network-order unsigned format of \<open>k\<close> bytes (\<open>!B\<close>, \<open>!H\<close>, \<open>!L\<close>,
  \<open>!Q\<close> for 1, 2, 4, 8): the \<open>k\<close> bytes of the value, most significant first, and
  \<open>struct.error\<close> when the value does not fit.
\<close>

fun be_bytes :: "nat \<Rightarrow> nat \<Rightarrow> byte list" where
  "be_bytes 0 v = []"
| "be_bytes (Suc k) v = be_bytes k (v div 256) @ [of_nat v]"

definition pack_uint :: "nat \<Rightarrow> nat \<Rightarrow> error + byte list" where
  "pack_uint k v = (if v < 256 ^ k then Inr (be_bytes k v) else Inl StructError)"

text \<open>
  \<open>str.encode("utf-8")\<close>: one to four bytes per code point; a surrogate code point
  raises \<open>UnicodeEncodeError\<close>. (A Python \<open>str\<close> holds no code point above \<open>0x10FFFF\<close>;
  the model refuses such a number with the same error.)
\<close>

definition utf8_char :: "nat \<Rightarrow> error + byte list" where
  "utf8_char c =
     (if c < 0x80 then Inr [of_nat c]
      else if c < 0x800 then Inr [of_nat (0xC0 + c div 64), of_nat (0x80 + c mod 64)]
      else if 0xD800 \<le> c \<and> c < 0xE000 then Inl UnicodeEncodeError
      else if c < 0x10000 then
        Inr [of_nat (0xE0 + c div 4096), of_nat (0x80 + c div 64 mod 64), of_nat (0x80 + c mod 64)]
      else if c < 0x110000 then
        Inr [of_nat (0xF0 + c div 262144), of_nat (0x80 + c div 4096 mod 64),
             of_nat (0x80 + c div 64 mod 64), of_nat (0x80 + c mod 64)]
      else Inl UnicodeEncodeError)"

fun utf8_encode :: "nat list \<Rightarrow> error + byte list" where
  "utf8_encode [] = Inr []"
| "utf8_encode (c # cs) =
     (case utf8_char c of
        Inl e \<Rightarrow> Inl e
      | Inr bs \<Rightarrow> (case utf8_encode cs of Inl e \<Rightarrow> Inl e | Inr rest \<Rightarrow> Inr (bs @ rest)))"

section \<open>Frame codec: encode\<close>

text \<open>
  \<open>encode_bytes\<close> receives a \<open>str\<close> or a \<open>bytes\<close> value. The control byte has the fin bit
  and opcode 1 for a \<open>str\<close> (which is then UTF-8 encoded) and opcode 2 otherwise. The
  length field follows the source's comparisons: \<open>length < 126\<close>, then
  \<open>length < 2**16 - 1\<close>, then the 8-byte form.
\<close>

datatype payload = Str "nat list" | Bytes "byte list"

definition control_and_body :: "payload \<Rightarrow> error + (byte \<times> byte list)" where
  "control_and_body message =
     (case message of
        Str s \<Rightarrow> (case utf8_encode s of Inl e \<Rightarrow> Inl e | Inr bs \<Rightarrow> Inr (0x80 OR 0x01, bs))
      | Bytes bs \<Rightarrow> Inr (0x80 OR 0x02, bs))"

definition length_field :: "nat \<Rightarrow> error + byte list" where
  "length_field len =
     (if len < 126 then Inr [of_nat len]
      else if len < 2 ^ 16 - 1 then Inr (126 # be_bytes 2 len)
      else (case pack_uint 8 len of Inl e \<Rightarrow> Inl e | Inr l \<Rightarrow> Inr (127 # l)))"

definition encode_bytes :: "payload \<Rightarrow> error + byte list" where
  "encode_bytes message =
     (case control_and_body message of
        Inl e \<Rightarrow> Inl e
      | Inr (b1, body) \<Rightarrow>
          (case length_field (length body) of
             Inl e \<Rightarrow> Inl e
           | Inr lf \<Rightarrow> Inr ([b1] @ lf @ body)))"

text \<open>
  \<open>encode_message\<close> receives \<open>bytes\<close>, a \<open>str\<close> or a dictionary. A \<open>str\<close> is UTF-8 encoded
  here, so \<open>encode_bytes\<close> sees \<open>bytes\<close>. A dictionary is read at the keys \<open>"update"\<close> (a
  list of pairs) and \<open>"delete"\<close> (a list); a missing key raises \<open>KeyError\<close>. Each count is
  packed with \<open>!L\<close>, each key and value goes through \<open>encode_bytes\<close>.
\<close>

datatype message =
    MBytes "byte list"
  | MStr "nat list"
  | MDict "(payload \<times> payload) list option" "payload list option"

fun encode_update :: "(payload \<times> payload) list \<Rightarrow> error + byte list" where
  "encode_update [] = Inr []"
| "encode_update ((key, val) # rest) =
     (case encode_bytes key of
        Inl e \<Rightarrow> Inl e
      | Inr kb \<Rightarrow>
          (case encode_bytes val of
             Inl e \<Rightarrow> Inl e
           | Inr vb \<Rightarrow>
               (case encode_update rest of Inl e \<Rightarrow> Inl e | Inr r \<Rightarrow> Inr (kb @ vb @ r))))"

fun encode_delete :: "payload list \<Rightarrow> error + byte list" where
  "encode_delete [] = Inr []"
| "encode_delete (key # rest) =
     (case encode_bytes key of
        Inl e \<Rightarrow> Inl e
      | Inr kb \<Rightarrow> (case encode_delete rest of Inl e \<Rightarrow> Inl e | Inr r \<Rightarrow> Inr (kb @ r)))"

definition flatten_delta ::
  "(payload \<times> payload) list option \<Rightarrow> payload list option \<Rightarrow> error + byte list" where
  "flatten_delta upd del =
     (case upd of
        None \<Rightarrow> Inl KeyError
      | Some us \<Rightarrow>
          (case pack_uint 4 (length us) of
             Inl e \<Rightarrow> Inl e
           | Inr ucount \<Rightarrow>
               (case encode_update us of
                  Inl e \<Rightarrow> Inl e
                | Inr ubody \<Rightarrow>
                    (case del of
                       None \<Rightarrow> Inl KeyError
                     | Some ds \<Rightarrow>
                         (case pack_uint 4 (length ds) of
                            Inl e \<Rightarrow> Inl e
                          | Inr dcount \<Rightarrow>
                              (case encode_delete ds of
                                 Inl e \<Rightarrow> Inl e
                               | Inr dbody \<Rightarrow> Inr ((ucount @ ubody) @ (dcount @ dbody))))))))"

fun encode_message :: "message \<Rightarrow> error + byte list" where
  "encode_message (MBytes bs) = encode_bytes (Bytes bs)"
| "encode_message (MStr s) =
     (case utf8_encode s of Inl e \<Rightarrow> Inl e | Inr bs \<Rightarrow> encode_bytes (Bytes bs))"
| "encode_message (MDict upd del) =
     (case flatten_delta upd del of Inl e \<Rightarrow> Inl e | Inr bs \<Rightarrow> encode_bytes (Bytes bs))"

section \<open>Frame codec: decode\<close>

text \<open>
  The list comprehension of \<open>decode_message\<close>: the \<open>i\<close>-th data byte is XOR-ed with
  \<open>masks[i % 4]\<close>, and \<open>masks\<close> is a slice that can be shorter than four bytes, so the
  index can be out of range (\<open>IndexError\<close>).
\<close>

fun unmask_from :: "byte list \<Rightarrow> nat \<Rightarrow> byte list \<Rightarrow> error + byte list" where
  "unmask_from masks i [] = Inr []"
| "unmask_from masks i (b # bs) =
     (if i mod 4 < length masks then
        (case unmask_from masks (Suc i) bs of
           Inl e \<Rightarrow> Inl e
         | Inr r \<Rightarrow> Inr ((b XOR masks ! (i mod 4)) # r))
      else Inl IndexError)"

text \<open>
  The argument is what \<open>socket.recv\<close> hands over: a \<open>bytes\<close> value, or \<open>None\<close> for an
  absent message. \<open>not message\<close> holds for \<open>None\<close> and for the empty value. The branch
  for \<open>type(message) == str\<close> is not taken by a \<open>bytes\<close> value. \<open>struct.unpack("!BB", _)\<close>
  needs exactly two bytes, and \<open>message[:2]\<close> has fewer when the message has one byte.
  Slices never raise: \<open>message[a:b]\<close> is \<open>take (b - a) (drop a message)\<close>.
\<close>

definition decode_message :: "byte list option \<Rightarrow> error + byte list option" where
  "decode_message message =
     (case message of
        None \<Rightarrow> Inr None
      | Some msg \<Rightarrow>
          if msg = [] then Inr None
          else
            (case take 2 msg of
               [b1, b2] \<Rightarrow>
                 (let op_code = b1 AND 0x0F;
                      payload_length = b2 AND 0x7F;
                      idx_first_mask =
                        (if payload_length = 126 then 4
                         else if payload_length = 127 then 10 else 2);
                      idx_first_data = idx_first_mask + 4;
                      masks = take (idx_first_data - idx_first_mask) (drop idx_first_mask msg)
                  in (case unmask_from masks 0 (drop idx_first_data msg) of
                        Inl e \<Rightarrow> Inl e
                      | Inr decoded_bytes \<Rightarrow>
                          if decoded_bytes = [0x03, 0xE9] then Inr None
                          else Inr (Some decoded_bytes)))
             | _ \<Rightarrow> Inl StructError))"


text \<open>
  The payload that \<open>decode_message\<close> unmasks, as a function of the message alone: the
  bytes after the mask, each XOR-ed with the mask byte at its position modulo four.
  \<open>xor_mask\<close> is the comprehension for a mask of full length.
\<close>

definition xor_mask :: "byte list \<Rightarrow> byte list \<Rightarrow> byte list" where
  "xor_mask masks bs = map (\<lambda>(i, b). b XOR masks ! (i mod 4)) (enumerate 0 bs)"

definition extended_length_bytes :: "byte \<Rightarrow> nat" where
  "extended_length_bytes b2 =
     (if b2 AND 0x7F = 126 then 2 else if b2 AND 0x7F = 127 then 8 else 0)"

definition unmasked_payload :: "byte list \<Rightarrow> byte list" where
  "unmasked_payload msg =
     (case msg of
        b1 # b2 # rest \<Rightarrow>
          xor_mask (take 4 (drop (extended_length_bytes b2) rest))
            (drop (extended_length_bytes b2 + 4) rest)
      | _ \<Rightarrow> [])"

text \<open>
  Modelled from the spec: the mask step that the round-trip property adds to emulate a
  client is not part of the server. It takes a 4-byte mask key and an unmasked frame,
  sets the mask bit of the second byte, puts the key after the (possibly extended) length
  field and XOR-s the payload with \<open>mask[i % 4]\<close>.
\<close>

definition client_mask :: "byte list \<Rightarrow> byte list \<Rightarrow> byte list" where
  "client_mask mask_key frame =
     (case frame of
        b1 # b2 # rest \<Rightarrow>
          b1 # (b2 OR 0x80) # take (extended_length_bytes b2) rest @ mask_key
            @ xor_mask mask_key (drop (extended_length_bytes b2) rest)
      | _ \<Rightarrow> frame)"

section \<open>The flattened delta layout, read back\<close>

text \<open>
  Modelled from the spec: a reader of the flattened delta payload. It reads a 4-byte
  big-endian count, then that many pairs of fields, then a second count and that many
  fields. \<open>read_frame\<close> reads one field as \<open>encode_bytes\<close> writes it: the control byte,
  the length field in one of its three forms, and as many bytes as the length says.
\<close>

definition be_value :: "byte list \<Rightarrow> nat" where
  "be_value bs = foldl (\<lambda>acc b. acc * 256 + unat b) 0 bs"

definition read_uint :: "nat \<Rightarrow> byte list \<Rightarrow> (nat \<times> byte list) option" where
  "read_uint k bs = (if length bs < k then None else Some (be_value (take k bs), drop k bs))"

definition read_frame :: "byte list \<Rightarrow> ((byte \<times> byte list) \<times> byte list) option" where
  "read_frame bs =
     (case bs of
        b1 # b2 # rest \<Rightarrow>
          (case read_uint (extended_length_bytes b2) rest of
             None \<Rightarrow> None
           | Some (ext, rest') \<Rightarrow>
               (let len = (if extended_length_bytes b2 = 0 then unat (b2 AND 0x7F) else ext)
                in if length rest' < len then None
                   else Some ((b1, take len rest'), drop len rest')))
      | _ \<Rightarrow> None)"

fun read_frames :: "nat \<Rightarrow> byte list \<Rightarrow> ((byte \<times> byte list) list \<times> byte list) option" where
  "read_frames 0 bs = Some ([], bs)"
| "read_frames (Suc n) bs =
     (case read_frame bs of
        None \<Rightarrow> None
      | Some (f, rest) \<Rightarrow>
          (case read_frames n rest of
             None \<Rightarrow> None
           | Some (fs, rest') \<Rightarrow> Some (f # fs, rest')))"

fun pair_up :: "'a list \<Rightarrow> ('a \<times> 'a) list" where
  "pair_up (k # v # rest) = (k, v) # pair_up rest"
| "pair_up _ = []"

definition parse_delta ::
  "byte list \<Rightarrow> (((byte \<times> byte list) \<times> (byte \<times> byte list)) list \<times> (byte \<times> byte list) list) option"
  where
  "parse_delta bs =
     (case read_uint 4 bs of
        None \<Rightarrow> None
      | Some (n, r1) \<Rightarrow>
          (case read_frames (2 * n) r1 of
             None \<Rightarrow> None
           | Some (us, r2) \<Rightarrow>
               (case read_uint 4 r2 of
                  None \<Rightarrow> None
                | Some (m, r3) \<Rightarrow>
                    (case read_frames m r3 of
                       None \<Rightarrow> None
                     | Some (ds, r4) \<Rightarrow> if r4 = [] then Some (pair_up us, ds) else None))))"

text \<open>
  What a field of the delta contributes: its control byte and its bytes (the UTF-8
  bytes of a \<open>str\<close>).
\<close>

definition field_of :: "payload \<Rightarrow> byte \<times> byte list" where
  "field_of p =
     (case p of
        Str s \<Rightarrow> (0x81, (case utf8_encode s of Inl e \<Rightarrow> [] | Inr bs \<Rightarrow> bs))
      | Bytes bs \<Rightarrow> (0x82, bs))"

text \<open>The bytes that \<open>encode_bytes\<close> writes for a field (nothing when it raises).\<close>

definition frame_of :: "payload \<Rightarrow> byte list" where
  "frame_of p = (case encode_bytes p of Inl e \<Rightarrow> [] | Inr f \<Rightarrow> f)"

text \<open>
  The layout in the words of the specification: each field is its length prefix (one
  byte below 126, else 126 and two bytes, else 127 and eight bytes) followed by its
  bytes, with no control byte.
\<close>

definition spec_length_prefix :: "nat \<Rightarrow> byte list" where
  "spec_length_prefix len =
     (if len < 126 then [of_nat len]
      else if len < 2 ^ 16 then 126 # be_bytes 2 len
      else 127 # be_bytes 8 len)"

definition spec_field :: "payload \<Rightarrow> byte list" where
  "spec_field p = spec_length_prefix (length (snd (field_of p))) @ snd (field_of p)"

definition spec_flatten :: "(payload \<times> payload) list \<Rightarrow> payload list \<Rightarrow> byte list" where
  "spec_flatten us ds =
     be_bytes 4 (length us) @ concat (map (\<lambda>(k, v). spec_field k @ spec_field v) us)
       @ be_bytes 4 (length ds) @ concat (map spec_field ds)"

section \<open>Handshake: the request parser and the responses\<close>

text \<open>
  \<open>MAGIC\<close> is a \<open>bytes\<close> constant. The two responses are \<open>str\<close> constants that are
  encoded with UTF-8 before they are sent; they are ASCII, so they are byte strings
  here, and \<open>STR_HANDSHAKE\<close> takes the accept key that \<open>%s\<close> stands for.
\<close>

definition ascii :: "string \<Rightarrow> byte list" where
  "ascii s = map (\<lambda>c. of_nat (of_char c)) s"

definition crlf :: "byte list" where
  "crlf = [0x0D, 0x0A]"

definition MAGIC :: "byte list" where
  "MAGIC = ascii ''258EAFA5-E914-47DA-95CA-C5AB0DC85B11''"

definition STR_HANDSHAKE :: "byte list \<Rightarrow> byte list" where
  "STR_HANDSHAKE accept_key =
     ascii ''HTTP/1.1 101 Web Socket Protocol Handshake'' @ crlf
       @ ascii ''Upgrade: websocket'' @ crlf
       @ ascii ''Connection: Upgrade'' @ crlf
       @ ascii ''Sec-WebSocket-Accept: '' @ accept_key @ crlf @ crlf"

definition STR_REJECT :: "byte list" where
  "STR_REJECT = ascii ''HTTP/1.1 400 Bad Request'' @ crlf @ crlf"

text \<open>
  \<open>bytes.splitlines()\<close> breaks at \<open>\n\<close>, \<open>\r\<close> and \<open>\r\n\<close>, drops the line breaks and
  yields no empty last line after a final break. \<open>cur\<close> is the line read so far.
\<close>

fun splitlines_from :: "byte list \<Rightarrow> byte list \<Rightarrow> byte list list" where
  "splitlines_from cur [] = (if cur = [] then [] else [cur])"
| "splitlines_from cur [b] =
     (if b = 0x0A \<or> b = 0x0D then [cur] else [cur @ [b]])"
| "splitlines_from cur (b # b' # bs) =
     (if b = 0x0D \<and> b' = 0x0A then cur # splitlines_from [] bs
      else if b = 0x0A \<or> b = 0x0D then cur # splitlines_from [] (b' # bs)
      else splitlines_from (cur @ [b]) (b' # bs))"

definition splitlines :: "byte list \<Rightarrow> byte list list" where
  "splitlines bs = splitlines_from [] bs"

definition startswith :: "byte list \<Rightarrow> byte list \<Rightarrow> bool" where
  "startswith line p = (take (length p) line = p)"

fun index_of :: "byte \<Rightarrow> byte list \<Rightarrow> nat option" where
  "index_of c [] = None"
| "index_of c (b # bs) = (if b = c then Some 0 else map_option Suc (index_of c bs))"

text \<open>\<open>bytes.strip()\<close> removes ASCII whitespace (space, tab, LF, VT, FF, CR) at both ends.\<close>

definition is_space :: "byte \<Rightarrow> bool" where
  "is_space b = (b = 0x20 \<or> b = 0x09 \<or> b = 0x0A \<or> b = 0x0B \<or> b = 0x0C \<or> b = 0x0D)"

definition strip :: "byte list \<Rightarrow> byte list" where
  "strip bs = rev (dropWhile is_space (rev (dropWhile is_space bs)))"

text \<open>
  The loop over the request's lines: the first line that starts with
  \<open>Sec-WebSocket-Key\<close> decides. \<open>line.index(b":")\<close> raises \<open>ValueError\<close> when that line
  has no colon.
\<close>

fun find_key :: "byte list list \<Rightarrow> error + byte list option" where
  "find_key [] = Inr None"
| "find_key (line # rest) =
     (if startswith line (ascii ''Sec-WebSocket-Key'') then
        (case index_of 0x3A line of
           None \<Rightarrow> Inl ValueError
         | Some i \<Rightarrow> Inr (Some (strip (drop (i + 1) line))))
      else find_key rest)"

text \<open>
  \<open>base64.b64encode\<close> with the standard alphabet and padding. Its output is ASCII, so
  decoding it to a \<open>str\<close>, formatting it into the response and encoding the response
  again leaves its bytes as they are.
\<close>

definition b64_char :: "nat \<Rightarrow> byte" where
  "b64_char n =
     (if n < 26 then of_nat (65 + n)
      else if n < 52 then of_nat (97 + (n - 26))
      else if n < 62 then of_nat (48 + (n - 52))
      else if n = 62 then 0x2B else 0x2F)"

fun b64encode :: "byte list \<Rightarrow> byte list" where
  "b64encode [] = []"
| "b64encode [a] =
     [b64_char (unat a div 4), b64_char (unat a mod 4 * 16), 0x3D, 0x3D]"
| "b64encode [a, b] =
     [b64_char (unat a div 4), b64_char (unat a mod 4 * 16 + unat b div 16),
      b64_char (unat b mod 16 * 4), 0x3D]"
| "b64encode (a # b # c # rest) =
     [b64_char (unat a div 4), b64_char (unat a mod 4 * 16 + unat b div 16),
      b64_char (unat b mod 16 * 4 + unat c div 64), b64_char (unat c mod 64)]
       @ b64encode rest"

section \<open>The connection session\<close>

text \<open>
  \<open>handle_client\<close> as a machine that runs one statement group per step. The state holds
  what the session can observe or change: the results that later calls of
  \<open>client.recv\<close> will give (\<open>inbox\<close>), the registry \<open>self.clients\<close>, the byte strings
  passed to \<open>client.send\<close>, how often the connect callback ran, the arguments of the
  message callback, and whether \<open>client.close()\<close> ran. The callbacks are the embedding
  application's: the model records their invocations and takes it that they return
  and leave the registry alone. \<open>hashlib.sha1(_).digest()\<close> is a parameter. The other
  sessions of the server, which add and remove their own sockets under the lock, are
  not part of the model.
\<close>

type_synonym conn = nat

datatype recv_result = Data "byte list" | RecvRaises

datatype loc =
    Handshaking
  | ConnectCallback
  | RegistryAdd
  | Receiving
  | Decoding "byte list"
  | MessageCallback "byte list option"
  | LoopTest "byte list option"
  | RegistryRemove
  | SocketClose
  | Returned
  | Raised error

record session =
  loc :: loc
  inbox :: "recv_result list"
  clients :: "conn list"
  sent :: "byte list list"
  connect_calls :: nat
  message_calls :: "byte list option list"
  sock_closed :: bool

record config =
  client :: conn
  connection_callback :: bool
  message_callback :: bool
  sha1 :: "byte list \<Rightarrow> byte list"

definition step :: "config \<Rightarrow> session \<Rightarrow> session option" where
  "step cfg s =
     (case loc s of
        Handshaking \<Rightarrow>
          (case inbox s of
             [] \<Rightarrow> None
           | RecvRaises # later \<Rightarrow> Some (s\<lparr>inbox := later, loc := Raised OSError\<rparr>)
           | Data request # later \<Rightarrow>
               (case find_key (splitlines request) of
                  Inl e \<Rightarrow> Some (s\<lparr>inbox := later, loc := Raised e\<rparr>)
                | Inr None \<Rightarrow>
                    Some (s\<lparr>inbox := later, sent := sent s @ [STR_REJECT], loc := Returned\<rparr>)
                | Inr (Some client_key) \<Rightarrow>
                    Some (s\<lparr>inbox := later,
                            sent := sent s
                              @ [STR_HANDSHAKE (b64encode (sha1 cfg (client_key @ MAGIC)))],
                            loc := ConnectCallback\<rparr>)))
      | ConnectCallback \<Rightarrow>
          Some (s\<lparr>connect_calls := connect_calls s + (if connection_callback cfg then 1 else 0),
                  loc := RegistryAdd\<rparr>)
      | RegistryAdd \<Rightarrow> Some (s\<lparr>clients := clients s @ [client cfg], loc := Receiving\<rparr>)
      | Receiving \<Rightarrow>
          (case inbox s of
             [] \<Rightarrow> None
           | RecvRaises # later \<Rightarrow> Some (s\<lparr>inbox := later\<rparr>)
           | Data m # later \<Rightarrow> Some (s\<lparr>inbox := later, loc := Decoding m\<rparr>))
      | Decoding m \<Rightarrow>
          (case decode_message (Some m) of
             Inl e \<Rightarrow> Some (s\<lparr>loc := Raised e\<rparr>)
           | Inr r \<Rightarrow> Some (s\<lparr>loc := MessageCallback r\<rparr>))
      | MessageCallback r \<Rightarrow>
          Some (s\<lparr>message_calls := message_calls s @ (if message_callback cfg then [r] else []),
                  loc := LoopTest r\<rparr>)
      | LoopTest r \<Rightarrow> Some (s\<lparr>loc := (if r = None then RegistryRemove else Receiving)\<rparr>)
      | RegistryRemove \<Rightarrow>
          (if client cfg \<in> set (clients s) then
             Some (s\<lparr>clients := remove1 (client cfg) (clients s), loc := SocketClose\<rparr>)
           else Some (s\<lparr>loc := Raised ValueError\<rparr>))
      | SocketClose \<Rightarrow> Some (s\<lparr>sock_closed := True, loc := Returned\<rparr>)
      | Returned \<Rightarrow> None
      | Raised e \<Rightarrow> None)"

text \<open>
  \<open>exec cfg n s\<close> runs at most \<open>n\<close> steps from \<open>s\<close>; it stays where no step is possible
  (the function has returned, an exception has ended the thread, or \<open>recv\<close> blocks).
  \<open>start\<close> is the state on entry to \<open>handle_client\<close>.
\<close>

fun exec :: "config \<Rightarrow> nat \<Rightarrow> session \<Rightarrow> session" where
  "exec cfg 0 s = s"
| "exec cfg (Suc n) s = (case step cfg s of None \<Rightarrow> s | Some s' \<Rightarrow> exec cfg n s')"

definition start :: "conn list \<Rightarrow> recv_result list \<Rightarrow> session" where
  "start cs rs =
     \<lparr>loc = Handshaking, inbox = rs, clients = cs, sent = [], connect_calls = 0,
      message_calls = [], sock_closed = False\<rparr>"

text \<open>The positions of the receive loop, and the positions at which the loop has been left.\<close>

fun in_receive_loop :: "loc \<Rightarrow> bool" where
  "in_receive_loop Receiving = True"
| "in_receive_loop (Decoding m) = True"
| "in_receive_loop (MessageCallback r) = True"
| "in_receive_loop (LoopTest r) = True"
| "in_receive_loop _ = False"

fun is_raised :: "loc \<Rightarrow> bool" where
  "is_raised (Raised e) = True"
| "is_raised _ = False"

text \<open>
  The registry invariant in the words of the specification: the handshake has succeeded
  once the 101 response is sent, and the session loop has exited once control is past
  the \<open>while\<close> statement.
\<close>

definition handshake_succeeded :: "session \<Rightarrow> bool" where
  "handshake_succeeded s = list_ex (\<lambda>r. startswith r (ascii ''HTTP/1.1 101'')) (sent s)"

fun loop_exited :: "loc \<Rightarrow> bool" where
  "loop_exited RegistryRemove = True"
| "loop_exited SocketClose = True"
| "loop_exited Returned = True"
| "loop_exited (Raised e) = True"
| "loop_exited _ = False"

definition spec_registry_invariant :: "config \<Rightarrow> session \<Rightarrow> bool" where
  "spec_registry_invariant cfg s =
     (client cfg \<in> set (clients s) \<longleftrightarrow> handshake_succeeded s \<and> \<not> loop_exited (loc s))"

text \<open>
  What holds at every position of a session that started with registry \<open>cs\<close>. When an
  exception has ended the thread before the 101 response was sent, the registry is
  \<open>cs\<close>. When no exception has ended the thread: the registry is \<open>cs\<close> with the client appended from the
  registry add to the registry remove, and \<open>cs\<close> elsewhere; the connect callback has run
  (once, when there is one) from the registry add on; the 101 response has been sent
  at every position after the handshake but the return of the reject path; the socket
  is closed only after the return of the accept path.
\<close>

definition session_inv :: "config \<Rightarrow> conn list \<Rightarrow> session \<Rightarrow> bool" where
  "session_inv cfg cs s =
     ((is_raised (loc s) \<and> (handshake_succeeded s \<or> clients s = cs)) \<or>
      (clients s =
         (if in_receive_loop (loc s) \<or> loc s = RegistryRemove then cs @ [client cfg] else cs)
       \<and> connect_calls s =
           (if loc s = Handshaking \<or> loc s = ConnectCallback \<or> \<not> handshake_succeeded s then 0
            else if connection_callback cfg then 1 else 0)
       \<and> (handshake_succeeded s \<longleftrightarrow> loc s \<noteq> Handshaking \<and> (loc s = Returned \<longrightarrow> sock_closed s))
       \<and> (sock_closed s \<longrightarrow> loc s = Returned)))"

text \<open>
  Sample inputs: a request with a key line, a request without one, and a server with
  both callbacks, client handle 7 and the first 20 bytes of the input in the place of
  the digest.
\<close>

definition sample_request :: "byte list" where
  "sample_request =
     ascii ''GET /chat HTTP/1.1'' @ crlf
       @ ascii ''Sec-WebSocket-Key: dGhlIHNhbXBsZSBub25jZQ=='' @ crlf @ crlf"

definition keyless_request :: "byte list" where
  "keyless_request = ascii ''GET /chat HTTP/1.1'' @ crlf @ ascii ''Host: example'' @ crlf @ crlf"

definition sample_config :: config where
  "sample_config =
     \<lparr>client = 7, connection_callback = True, message_callback = True, sha1 = take 20\<rparr>"

section \<open>Facts about bytes and the length field\<close>

lemma low7_mask: "(0x7F :: byte) = mask 7"
  by (simp add: mask_eq_exp_minus_1)

lemma or_bit_and_mask: "(x OR 2 ^ k) AND mask k = (x AND mask k :: byte)"
  by (rule bit_word_eqI) (auto simp add: bit_simps)

lemma mask_bit_ignored: "(x OR 0x80) AND 0x7F = (x AND 0x7F :: byte)"
  using or_bit_and_mask [of x 7] by (simp add: low7_mask)

lemma unat_byte_of_nat: "n < 256 \<Longrightarrow> unat (of_nat n :: byte) = n"
  by (simp add: unat_of_nat)

lemma small_and_low7: "n < 128 \<Longrightarrow> (of_nat n :: byte) AND 0x7F = of_nat n"
  unfolding low7_mask
  by (rule less_mask_eq) (simp add: word_less_nat_alt unat_of_nat)

lemma byte_of_nat_neq: "n < 256 \<Longrightarrow> m < 256 \<Longrightarrow> n \<noteq> m \<Longrightarrow> (of_nat n :: byte) \<noteq> of_nat m"
  using unat_byte_of_nat [of n] unat_byte_of_nat [of m] by metis

lemma extended_length_bytes_mask_bit:
  "extended_length_bytes (b2 OR 0x80) = extended_length_bytes b2"
  by (simp add: extended_length_bytes_def mask_bit_ignored)

lemma extended_length_bytes_small:
  assumes "n < 126"
  shows "extended_length_bytes (of_nat n) = 0"
proof -
  have "(of_nat n :: byte) \<noteq> 126" "(of_nat n :: byte) \<noteq> 127"
    using assms byte_of_nat_neq [of n 126] byte_of_nat_neq [of n 127] by simp_all
  then show ?thesis
    using assms by (simp add: extended_length_bytes_def small_and_low7)
qed

lemma extended_length_bytes_126: "extended_length_bytes 126 = 2"
  by (simp add: extended_length_bytes_def)

lemma extended_length_bytes_127: "extended_length_bytes 127 = 8"
  by (simp add: extended_length_bytes_def)

lemma length_be_bytes: "length (be_bytes k v) = k"
  by (induction k arbitrary: v) simp_all

lemma length_field_shape:
  assumes "length_field n = Inr lf"
  shows "\<exists>b2 ext. lf = b2 # ext \<and> extended_length_bytes b2 = length ext"
proof (cases "n < 126")
  case True
  then show ?thesis
    using assms by (auto simp add: length_field_def extended_length_bytes_small)
next
  case False
  then show ?thesis
    using assms
    by (auto simp add: length_field_def pack_uint_def length_be_bytes
        extended_length_bytes_126 extended_length_bytes_127 split: if_splits)
qed

lemma length_field_total: "n < 2 ^ 64 \<Longrightarrow> \<exists>lf. length_field n = Inr lf"
  by (simp add: length_field_def pack_uint_def)

lemma be_bytes_8:
  "be_bytes 8 v =
     [of_nat (v div 256 div 256 div 256 div 256 div 256 div 256 div 256),
      of_nat (v div 256 div 256 div 256 div 256 div 256 div 256),
      of_nat (v div 256 div 256 div 256 div 256 div 256),
      of_nat (v div 256 div 256 div 256 div 256),
      of_nat (v div 256 div 256 div 256), of_nat (v div 256 div 256), of_nat (v div 256),
      of_nat v]"
proof -
  have "(8 :: nat) = Suc (Suc (Suc (Suc (Suc (Suc (Suc (Suc 0)))))))"
    by simp
  then show ?thesis
    by (simp only: be_bytes.simps append.simps)
qed

lemma be_bytes_2: "be_bytes 2 v = [of_nat (v div 256), of_nat v]"
proof -
  have "(2 :: nat) = Suc (Suc 0)"
    by simp
  then show ?thesis
    by (simp only: be_bytes.simps append.simps)
qed

lemma be_bytes_4:
  "be_bytes 4 v =
     [of_nat (v div 256 div 256 div 256), of_nat (v div 256 div 256), of_nat (v div 256),
      of_nat v]"
proof -
  have "(4 :: nat) = Suc (Suc (Suc (Suc 0)))"
    by simp
  then show ?thesis
    by (simp only: be_bytes.simps append.simps)
qed

lemma length_field_tiers:
  "length_field 0 = Inr [0]"
  "length_field 1 = Inr [1]"
  "length_field 125 = Inr [125]"
  "length_field 126 = Inr [126, 0, 126]"
  "length_field 65536 = Inr [127, 0, 0, 0, 0, 0, 1, 0, 0]"
  by (simp_all add: length_field_def pack_uint_def be_bytes_2 be_bytes_8)

section \<open>Facts about masking and decoding\<close>

lemma unmask_from_full:
  "length masks = 4 \<Longrightarrow>
   unmask_from masks i bs = Inr (map (\<lambda>(j, b). b XOR masks ! (j mod 4)) (enumerate i bs))"
  by (induction bs arbitrary: i) simp_all

lemma unmask_from_xor_mask:
  "length masks = 4 \<or> bs = [] \<Longrightarrow> unmask_from masks 0 bs = Inr (xor_mask masks bs)"
  by (auto simp add: xor_mask_def unmask_from_full)

lemma xor_twice_from:
  "map (\<lambda>(j, b). b XOR masks ! (j mod 4))
     (enumerate i (map (\<lambda>(j, b). b XOR masks ! (j mod 4)) (enumerate i bs))) = (bs :: byte list)"
  by (induction bs arbitrary: i) (simp_all add: xor.assoc)

lemma xor_mask_twice: "xor_mask masks (xor_mask masks bs) = bs"
  by (simp add: xor_mask_def xor_twice_from)

lemma decode_message_long:
  assumes "2 \<le> length msg"
  shows "decode_message (Some msg) =
           Inr (if unmasked_payload msg = [0x03, 0xE9] then None else Some (unmasked_payload msg))"
proof -
  obtain b1 b2 rest where msg: "msg = b1 # b2 # rest"
    using assms by (cases msg; cases "tl msg") auto
  define n where "n = extended_length_bytes b2"
  have full: "length (take 4 (drop n rest)) = 4 \<or> drop (n + 4) rest = []"
    by (cases "n + 4 \<le> length rest") auto
  have "decode_message (Some msg) =
          (case unmask_from (take 4 (drop n rest)) 0 (drop (n + 4) rest) of
             Inl e \<Rightarrow> Inl e
           | Inr d \<Rightarrow> if d = [0x03, 0xE9] then Inr None else Inr (Some d))"
    by (simp add: decode_message_def msg Let_def n_def extended_length_bytes_def)
  also have "\<dots> = Inr (if unmasked_payload msg = [0x03, 0xE9] then None
                        else Some (unmasked_payload msg))"
    using unmask_from_xor_mask [OF full] by (simp add: unmasked_payload_def msg n_def)
  finally show ?thesis .
qed

lemma decode_message_one: "decode_message (Some [b]) = Inl StructError"
  by (simp add: decode_message_def)

lemma encode_bytes_shape:
  assumes "encode_bytes (Bytes m) = Inr f"
  shows "\<exists>b2 ext. f = 0x82 # b2 # ext @ m \<and> extended_length_bytes b2 = length ext"
proof -
  obtain lf where lf: "length_field (length m) = Inr lf" and f: "f = 0x82 # lf @ m"
    using assms by (auto simp add: encode_bytes_def control_and_body_def split: sum.splits)
  from length_field_shape [OF lf] f show ?thesis by auto
qed

lemma encode_bytes_total:
  "length m < 2 ^ 64 \<Longrightarrow> \<exists>f. encode_bytes (Bytes m) = Inr f"
  using length_field_total [of "length m"]
  by (auto simp add: encode_bytes_def control_and_body_def)

lemma unmasked_payload_client_mask:
  assumes "extended_length_bytes b2 = length ext" and "length k = 4"
  shows "unmasked_payload (client_mask k (b1 # b2 # ext @ m)) = m"
  using assms
  by (simp add: unmasked_payload_def client_mask_def extended_length_bytes_mask_bit xor_mask_twice)

lemma roundtrip_bytes:
  assumes "length k = 4" and "encode_bytes (Bytes m) = Inr f"
  shows "decode_message (Some (client_mask k f)) = Inr (if m = [0x03, 0xE9] then None else Some m)"
proof -
  from encode_bytes_shape [OF assms(2)] obtain b2 ext
    where f: "f = 0x82 # b2 # ext @ m" and e: "extended_length_bytes b2 = length ext"
    by auto
  have "2 \<le> length (client_mask k f)"
    by (simp add: f client_mask_def)
  from decode_message_long [OF this] show ?thesis
    by (simp add: f unmasked_payload_client_mask [OF e assms(1)])
qed

lemma unmasked_payload_short: "length msg < 2 \<Longrightarrow> unmasked_payload msg = []"
  by (cases msg; cases "tl msg") (auto simp add: unmasked_payload_def)

lemma encode_message_MStr:
  "utf8_encode s = Inr m \<Longrightarrow> encode_message (MStr s) = encode_message (MBytes m)"
  by simp

section \<open>Facts about the flattened delta layout\<close>

lemma be_value_snoc: "be_value (xs @ [b]) = be_value xs * 256 + unat b"
  by (simp add: be_value_def)

lemma unat_byte_of_nat_mod: "unat (of_nat v :: byte) = v mod 256"
  by (simp add: unat_of_nat)

lemma be_value_be_bytes: "be_value (be_bytes k v) = v mod 256 ^ k"
proof (induction k arbitrary: v)
  case 0
  then show ?case by (simp add: be_value_def)
next
  case (Suc k)
  have "v mod (256 * 256 ^ k) = 256 * (v div 256 mod 256 ^ k) + v mod 256"
    by (rule mod_mult2_eq)
  then show ?case
    by (simp add: be_value_snoc Suc.IH unat_byte_of_nat_mod)
qed

lemma read_uint_be_bytes:
  "v < 256 ^ k \<Longrightarrow> read_uint k (be_bytes k v @ rest) = Some (v, rest)"
  by (simp add: read_uint_def length_be_bytes be_value_be_bytes)

lemma read_uint_zero: "read_uint 0 bs = Some (0, bs)"
  by (simp add: read_uint_def be_value_def)

lemma control_and_body_field_of:
  "control_and_body p = Inr cb \<Longrightarrow> cb = field_of p"
  by (auto simp add: control_and_body_def field_of_def split: payload.splits sum.splits)

lemma read_frame_fields:
  assumes "length_field (length body) = Inr lf"
  shows "read_frame (c # lf @ body @ rest) = Some ((c, body), rest)"
proof -
  let ?n = "length body"
  consider (small) "?n < 126" | (mid) "126 \<le> ?n" "?n < 2 ^ 16 - 1" | (big) "2 ^ 16 - 1 \<le> ?n"
    by linarith
  then show ?thesis
  proof cases
    case small
    then have lf: "lf = [of_nat ?n]"
      using assms by (simp add: length_field_def)
    have "unat ((of_nat ?n :: byte) AND 0x7F) = ?n"
      using small by (simp add: small_and_low7 unat_byte_of_nat)
    then show ?thesis
      using small
      by (simp add: lf read_frame_def extended_length_bytes_small read_uint_zero)
  next
    case mid
    then have lf: "lf = 126 # be_bytes 2 ?n"
      using assms by (simp add: length_field_def)
    have "?n < 256 ^ 2"
      using mid by simp
    from read_uint_be_bytes [OF this] show ?thesis
      by (simp add: lf read_frame_def extended_length_bytes_126)
  next
    case big
    then have lf: "lf = 127 # be_bytes 8 ?n" and fits: "?n < 256 ^ 8"
      using assms by (auto simp add: length_field_def pack_uint_def split: if_splits)
    from read_uint_be_bytes [OF fits] show ?thesis
      by (simp add: lf read_frame_def extended_length_bytes_127)
  qed
qed

lemma encode_bytes_frame:
  assumes "encode_bytes p = Inr f"
  shows "\<exists>lf. length_field (length (snd (field_of p))) = Inr lf
            \<and> f = fst (field_of p) # lf @ snd (field_of p)"
proof -
  obtain c body lf where cb: "control_and_body p = Inr (c, body)"
    and lf: "length_field (length body) = Inr lf" and f: "f = c # lf @ body"
    using assms by (auto simp add: encode_bytes_def split: sum.splits)
  from control_and_body_field_of [OF cb] have "field_of p = (c, body)"
    by simp
  then show ?thesis
    using lf f by simp
qed

lemma read_frame_encode_bytes:
  assumes "encode_bytes p = Inr f"
  shows "read_frame (f @ rest) = Some (field_of p, rest)"
proof -
  from encode_bytes_frame [OF assms] obtain lf
    where lf: "length_field (length (snd (field_of p))) = Inr lf"
      and f: "f = fst (field_of p) # lf @ snd (field_of p)"
    by auto
  from read_frame_fields [OF lf, of "fst (field_of p)" rest] show ?thesis
    by (simp add: f)
qed

lemma encode_delete_layout:
  "encode_delete ds = Inr bs \<Longrightarrow>
   bs = concat (map frame_of ds) \<and> (\<forall>p \<in> set ds. \<exists>f. encode_bytes p = Inr f)"
  by (induction ds arbitrary: bs) (auto simp add: frame_of_def split: sum.splits)

lemma encode_update_layout:
  "encode_update us = Inr bs \<Longrightarrow>
   bs = concat (map (\<lambda>(k, v). frame_of k @ frame_of v) us)
   \<and> (\<forall>p \<in> fst ` set us \<union> snd ` set us. \<exists>f. encode_bytes p = Inr f)"
proof (induction us arbitrary: bs)
  case Nil
  then show ?case by simp
next
  case (Cons kv us)
  obtain k v where kv: "kv = (k, v)"
    by (cases kv)
  from Cons.prems obtain kb vb r where
    k: "encode_bytes k = Inr kb" and v: "encode_bytes v = Inr vb"
    and r: "encode_update us = Inr r" and bs: "bs = kb @ vb @ r"
    by (auto simp add: kv split: sum.splits)
  from Cons.IH [OF r] show ?case
    using k v by (auto simp add: kv bs frame_of_def)
qed

lemma read_frames_encode_delete:
  "encode_delete ds = Inr bs \<Longrightarrow>
   read_frames (length ds) (bs @ rest) = Some (map field_of ds, rest)"
proof (induction ds arbitrary: bs)
  case Nil
  then show ?case by simp
next
  case (Cons d ds)
  from Cons.prems obtain db r where
    d: "encode_bytes d = Inr db" and r: "encode_delete ds = Inr r" and bs: "bs = db @ r"
    by (auto split: sum.splits)
  show ?case
    using read_frame_encode_bytes [OF d, of "r @ rest"] Cons.IH [OF r]
    by (simp add: bs)
qed

lemma read_frames_encode_update:
  "encode_update us = Inr bs \<Longrightarrow>
   read_frames (2 * length us) (bs @ rest)
     = Some (concat (map (\<lambda>(k, v). [field_of k, field_of v]) us), rest)"
proof (induction us arbitrary: bs)
  case Nil
  then show ?case by simp
next
  case (Cons kv us)
  obtain k v where kv: "kv = (k, v)"
    by (cases kv)
  from Cons.prems obtain kb vb r where
    k: "encode_bytes k = Inr kb" and v: "encode_bytes v = Inr vb"
    and r: "encode_update us = Inr r" and bs: "bs = kb @ vb @ r"
    by (auto simp add: kv split: sum.splits)
  show ?case
    using read_frame_encode_bytes [OF k, of "vb @ r @ rest"]
      read_frame_encode_bytes [OF v, of "r @ rest"] Cons.IH [OF r]
    by (simp add: bs kv)
qed

lemma pair_up_fields:
  "pair_up (concat (map (\<lambda>(k, v). [g k, g v]) us)) = map (\<lambda>(k, v). (g k, g v)) us"
  by (induction us) auto

lemma flatten_delta_layout:
  assumes "flatten_delta (Some us) (Some ds) = Inr flat"
  shows "flat = be_bytes 4 (length us) @ concat (map (\<lambda>(k, v). frame_of k @ frame_of v) us)
                  @ be_bytes 4 (length ds) @ concat (map frame_of ds)"
    and "\<forall>p \<in> fst ` set us \<union> snd ` set us \<union> set ds. \<exists>f. encode_bytes p = Inr f"
    and "parse_delta flat = Some (map (\<lambda>(k, v). (field_of k, field_of v)) us, map field_of ds)"
proof -
  from assms obtain ub db where
    nu: "length us < 256 ^ 4" and u: "encode_update us = Inr ub"
    and nd: "length ds < 256 ^ 4" and d: "encode_delete ds = Inr db"
    and flat: "flat = (be_bytes 4 (length us) @ ub) @ (be_bytes 4 (length ds) @ db)"
    by (auto simp add: flatten_delta_def pack_uint_def split: sum.splits if_splits)
  show "flat = be_bytes 4 (length us) @ concat (map (\<lambda>(k, v). frame_of k @ frame_of v) us)
                  @ be_bytes 4 (length ds) @ concat (map frame_of ds)"
    using encode_update_layout [OF u] encode_delete_layout [OF d] by (simp add: flat)
  show "\<forall>p \<in> fst ` set us \<union> snd ` set us \<union> set ds. \<exists>f. encode_bytes p = Inr f"
    using encode_update_layout [OF u] encode_delete_layout [OF d] by blast
  have 1: "read_uint 4 flat = Some (length us, ub @ be_bytes 4 (length ds) @ db)"
    using read_uint_be_bytes [OF nu] by (simp add: flat)
  have 2: "read_frames (2 * length us) (ub @ be_bytes 4 (length ds) @ db)
             = Some (concat (map (\<lambda>(k, v). [field_of k, field_of v]) us),
                     be_bytes 4 (length ds) @ db)"
    by (rule read_frames_encode_update [OF u])
  have 3: "read_uint 4 (be_bytes 4 (length ds) @ db) = Some (length ds, db)"
    by (rule read_uint_be_bytes [OF nd])
  have 4: "read_frames (length ds) db = Some (map field_of ds, [])"
    using read_frames_encode_delete [OF d, of "[]"] by simp
  show "parse_delta flat = Some (map (\<lambda>(k, v). (field_of k, field_of v)) us, map field_of ds)"
    by (simp add: parse_delta_def 1 2 3 4 pair_up_fields)
qed

section \<open>Facts about the handshake and the session\<close>

lemma b64_char_ascii: "unat (b64_char n) < 128"
proof -
  have small: "unat (of_nat m :: byte) < 128" if "m < 128" for m
    using that by (simp add: unat_of_nat)
  consider "n < 26" | "26 \<le> n" "n < 52" | "52 \<le> n" "n < 62" | "n = 62" | "62 < n"
    by linarith
  then show ?thesis
  proof cases
    case 1
    then have "b64_char n = of_nat (65 + n)" by (simp only: b64_char_def if_True)
    then show ?thesis using small [of "65 + n"] 1 by simp
  next
    case 2
    then have "b64_char n = of_nat (97 + (n - 26))" by (simp add: b64_char_def del: of_nat_add)
    then show ?thesis using small [of "97 + (n - 26)"] 2 by simp
  next
    case 3
    then have "b64_char n = of_nat (48 + (n - 52))" by (simp add: b64_char_def del: of_nat_add)
    then show ?thesis using small [of "48 + (n - 52)"] 3 by simp
  next
    case 4
    then show ?thesis by (simp add: b64_char_def)
  next
    case 5
    then show ?thesis by (simp add: b64_char_def)
  qed
qed

lemma b64encode_ascii: "\<forall>b \<in> set (b64encode bs). unat b < 128"
  by (induction bs rule: b64encode.induct) (simp_all add: b64_char_ascii)

lemma b64encode_examples:
  "b64encode (ascii ''foobar'') = ascii ''Zm9vYmFy''"
  "b64encode (ascii ''fooba'') = ascii ''Zm9vYmE=''"
  "b64encode (ascii ''foob'') = ascii ''Zm9vYg==''"
  by (simp_all add: ascii_def b64_char_def)

lemma find_key_none:
  "\<forall>line \<in> set ls. \<not> startswith line (ascii ''Sec-WebSocket-Key'') \<Longrightarrow> find_key ls = Inr None"
  by (induction ls) simp_all

lemma find_key_first:
  "find (\<lambda>l. startswith l (ascii ''Sec-WebSocket-Key'')) ls = Some line \<Longrightarrow>
   index_of 0x3A line = Some i \<Longrightarrow>
   find_key ls = Inr (Some (strip (drop (i + 1) line)))"
  by (induction ls) (auto split: if_splits)

lemma startswith_STR_HANDSHAKE: "startswith (STR_HANDSHAKE a) (ascii ''HTTP/1.1 101'')"
  by (simp add: startswith_def STR_HANDSHAKE_def ascii_def)

lemma not_startswith_STR_REJECT: "\<not> startswith STR_REJECT (ascii ''HTTP/1.1 101'')"
  by (simp add: startswith_def STR_REJECT_def ascii_def)

lemma remove1_snoc: "x \<notin> set xs \<Longrightarrow> remove1 x (xs @ [x]) = xs"
  by (induction xs) auto

lemma exec_stuck: "step cfg s = None \<Longrightarrow> exec cfg n s = s"
  by (cases n) simp_all

lemma handshake_succeeded_updates:
  "handshake_succeeded (loc_update fl s) = handshake_succeeded s"
  "handshake_succeeded (inbox_update fi s) = handshake_succeeded s"
  "handshake_succeeded (clients_update fc s) = handshake_succeeded s"
  "handshake_succeeded (connect_calls_update fn s) = handshake_succeeded s"
  "handshake_succeeded (message_calls_update fm s) = handshake_succeeded s"
  "handshake_succeeded (sock_closed_update fs s) = handshake_succeeded s"
  by (simp_all add: handshake_succeeded_def)

lemma handshake_succeeded_sent:
  "handshake_succeeded (sent_update (\<lambda>_. sent s @ [r]) s')
     \<longleftrightarrow> handshake_succeeded s \<or> startswith r (ascii ''HTTP/1.1 101'')"
  by (simp add: handshake_succeeded_def)

lemma start_inv: "session_inv cfg cs (start cs rs)"
  by (simp add: session_inv_def start_def handshake_succeeded_def)

lemma step_inv:
  assumes "client cfg \<notin> set cs" and "session_inv cfg cs s" and "step cfg s = Some s'"
  shows "session_inv cfg cs s'"
proof (cases "loc s")
  case Handshaking
  then show ?thesis
    using assms(2,3)
    by (auto simp add: step_def session_inv_def handshake_succeeded_updates
        handshake_succeeded_sent startswith_STR_HANDSHAKE not_startswith_STR_REJECT
        split: list.splits recv_result.splits sum.splits option.splits)
next
  case RegistryRemove
  then show ?thesis
    using assms
    by (auto simp add: step_def session_inv_def handshake_succeeded_updates remove1_snoc)
next
  case (Decoding m)
  then show ?thesis
    using assms(2,3)
    by (auto simp add: step_def session_inv_def handshake_succeeded_updates split: sum.splits)
next
  case Receiving
  then show ?thesis
    using assms(2,3)
    by (auto simp add: step_def session_inv_def handshake_succeeded_updates
        split: list.splits recv_result.splits)
next
  case (LoopTest r)
  then show ?thesis
    using assms(2,3)
    by (cases r) (auto simp add: step_def session_inv_def handshake_succeeded_updates)
qed (use assms(2,3) in \<open>auto simp add: step_def session_inv_def handshake_succeeded_updates\<close>)

lemma exec_inv:
  "client cfg \<notin> set cs \<Longrightarrow> session_inv cfg cs s \<Longrightarrow> session_inv cfg cs (exec cfg n s)"
proof (induction n arbitrary: s)
  case 0
  then show ?case by simp
next
  case (Suc n)
  show ?case
  proof (cases "step cfg s")
    case None
    then show ?thesis using Suc.prems by simp
  next
    case (Some s')
    then show ?thesis
      using Suc.IH [OF Suc.prems(1) step_inv [OF Suc.prems Some]] by simp
  qed
qed

lemma find_key_sample_request:
  "find_key (splitlines sample_request) = Inr (Some (ascii ''dGhlIHNhbXBsZSBub25jZQ==''))"
  by (simp add: sample_request_def ascii_def crlf_def splitlines_def startswith_def strip_def
      is_space_def)

section \<open>Properties of the frame codec\<close>

text \<open>
  C1. Round trip. Take a payload \<open>m\<close> whose byte length is 0, 1, 125, 126, 65535 or
  65536, given as \<open>bytes\<close> or as a \<open>str\<close> whose UTF-8 bytes are \<open>m\<close>. \<open>encode_message\<close>
  returns a frame, and after the client's mask step with any 4-byte key
  \<open>decode_message\<close> returns exactly \<open>m\<close>.
\<close>

theorem roundtrip_tiers:
  assumes "length k = 4" and "length m \<in> {0, 1, 125, 126, 65535, 65536}"
  shows "(\<exists>f. encode_message (MBytes m) = Inr f
            \<and> decode_message (Some (client_mask k f)) = Inr (Some m))
       \<and> (\<forall>s. utf8_encode s = Inr m \<longrightarrow>
            (\<exists>f. encode_message (MStr s) = Inr f
               \<and> decode_message (Some (client_mask k f)) = Inr (Some m)))"
proof -
  have "length m < 2 ^ 64"
    using assms(2) by auto
  then obtain f where f: "encode_bytes (Bytes m) = Inr f"
    using encode_bytes_total by blast
  have "m \<noteq> [0x03, 0xE9]"
    using assms(2) by auto
  then have "decode_message (Some (client_mask k f)) = Inr (Some m)"
    using roundtrip_bytes [OF assms(1) f] by simp
  then show ?thesis
    using f by auto
qed

theorem roundtrip_tiers_witness:
  "length [1, 2, 3, 4 :: byte] = 4 \<and> length [0x41 :: byte] \<in> {0, 1, 125, 126, 65535, 65536}
   \<and> encode_message (MBytes [0x41]) = Inr [0x82, 0x01, 0x41]
   \<and> client_mask [1, 2, 3, 4] [0x82, 0x01, 0x41] = [0x82, 0x81, 1, 2, 3, 4, 0x40]
   \<and> decode_message (Some [0x82, 0x81, 1, 2, 3, 4, 0x40]) = Inr (Some [0x41])
   \<and> utf8_encode [0x41] = Inr [0x41]
   \<and> encode_message (MStr [0x41]) = Inr [0x82, 0x01, 0x41]"
  using roundtrip_tiers [of "[1, 2, 3, 4]" "[0x41]"]
  by (simp add: encode_bytes_def control_and_body_def length_field_def client_mask_def
      extended_length_bytes_def xor_mask_def utf8_char_def)

text \<open>
  C2. Length-field tiers. The claim puts every length from 126 to 65535 in the 2-byte
  form. The source compares with \<open>2**16 - 1\<close>, so 65534 is the last length in the 2-byte
  form and a payload of 65535 bytes gets marker 127 and the 8-byte form.
\<close>

theorem length_65535_uses_eight_byte_form:
  "length_field 65534 = Inr [126, 0xFF, 0xFE]
   \<and> length_field 65535 = Inr [127, 0, 0, 0, 0, 0, 0, 0xFF, 0xFF]
   \<and> encode_message (MBytes (replicate 65535 0x00))
       = Inr ([0x82, 127, 0, 0, 0, 0, 0, 0, 0xFF, 0xFF] @ replicate 65535 0x00)"
  by (simp add: encode_bytes_def control_and_body_def length_field_def pack_uint_def
      be_bytes_8 be_bytes_2)

text \<open>
  C5. The claim as stated fails at a message of one byte: it is not empty, its payload
  is not the close code, yet nothing is returned, because unpacking the base header
  raises.
\<close>

theorem decode_one_byte_raises:
  "[0x81] \<noteq> ([] :: byte list) \<and> unmasked_payload [0x81] \<noteq> [0x03, 0xE9]
   \<and> decode_message (Some [0x81]) = Inl StructError"
  by (simp add: unmasked_payload_def decode_message_def)

text \<open>
  C5, amended. \<open>decode_message\<close> returns \<open>None\<close> exactly when the message is absent or
  empty or its unmasked payload is \<open>{0x03, 0xE9}\<close>; every other message of at least two
  bytes is returned as its unmasked payload; and the payload does not depend on the
  first byte, which holds the opcode.
\<close>

theorem decode_message_result:
  "decode_message None = Inr None
   \<and> (decode_message (Some msg) = Inr None
        \<longleftrightarrow> msg = [] \<or> unmasked_payload msg = [0x03, 0xE9])
   \<and> (2 \<le> length msg \<and> unmasked_payload msg \<noteq> [0x03, 0xE9]
        \<longrightarrow> decode_message (Some msg) = Inr (Some (unmasked_payload msg)))
   \<and> unmasked_payload (ctl # rest) = unmasked_payload (ctl' # rest)"
proof -
  have none: "decode_message None = Inr None"
    by (simp add: decode_message_def)
  have opcode: "unmasked_payload (ctl # rest) = unmasked_payload (ctl' # rest)"
    by (cases rest) (simp_all add: unmasked_payload_def)
  have iff: "decode_message (Some msg) = Inr None
               \<longleftrightarrow> msg = [] \<or> unmasked_payload msg = [0x03, 0xE9]"
  proof (cases "2 \<le> length msg")
    case True
    then show ?thesis
      using decode_message_long [OF True] by auto
  next
    case False
    then have short: "length msg < 2"
      by simp
    show ?thesis
    proof (cases msg)
      case Nil
      then show ?thesis by (simp add: decode_message_def)
    next
      case (Cons b bs)
      with short have "msg = [b]" by simp
      then show ?thesis
        using decode_message_one [of b] unmasked_payload_short [OF short] by simp
    qed
  qed
  show ?thesis
    using none iff opcode decode_message_long [of msg] by simp
qed

theorem decode_message_result_witness:
  "2 \<le> length [0x81, 0x83, 1, 2, 3, 4, 0x40, 0x40, 0x40 :: byte]
   \<and> unmasked_payload [0x81, 0x83, 1, 2, 3, 4, 0x40, 0x40, 0x40] = [0x41, 0x42, 0x43]
   \<and> decode_message (Some [0x81, 0x83, 1, 2, 3, 4, 0x40, 0x40, 0x40])
       = Inr (Some [0x41, 0x42, 0x43])
   \<and> decode_message (Some [0x88, 0x82, 1, 2, 3, 4, 0x02, 0xEB]) = Inr None"
  using decode_message_result [where msg = "[0x81, 0x83, 1, 2, 3, 4, 0x40, 0x40, 0x40]"]
    decode_message_result [where msg = "[0x88, 0x82, 1, 2, 3, 4, 0x02, 0xEB]"]
  by (simp add: unmasked_payload_def extended_length_bytes_def xor_mask_def)

text \<open>
  C9. \<open>decode_message\<close> never reads the value of the extended length field: two frames
  that differ only in the bytes of that field decode to the same result, which is the
  unmasking of everything after the four mask bytes (or \<open>None\<close> when that is the close
  code).
\<close>

theorem decode_ignores_extended_length:
  assumes "length ext = extended_length_bytes lenb" and "length ext' = extended_length_bytes lenb"
  shows "decode_message (Some (ctl # lenb # ext @ rest)) = decode_message (Some (ctl # lenb # ext' @ rest))
       \<and> decode_message (Some (ctl # lenb # ext @ rest))
           = Inr (if xor_mask (take 4 rest) (drop 4 rest) = [0x03, 0xE9] then None
                  else Some (xor_mask (take 4 rest) (drop 4 rest)))"
proof -
  have p: "unmasked_payload (ctl # lenb # e @ rest) = xor_mask (take 4 rest) (drop 4 rest)"
    if "length e = extended_length_bytes lenb" for e
    using that by (simp add: unmasked_payload_def)
  have d: "decode_message (Some (ctl # lenb # e @ rest))
             = Inr (if xor_mask (take 4 rest) (drop 4 rest) = [0x03, 0xE9] then None
                    else Some (xor_mask (take 4 rest) (drop 4 rest)))"
    if "length e = extended_length_bytes lenb" for e
    using decode_message_long [of "ctl # lenb # e @ rest"] p [OF that] by simp
  show ?thesis
    using d [OF assms(1)] d [OF assms(2)] by simp
qed

theorem decode_ignores_extended_length_witness:
  "length [0x00, 0x03 :: byte] = extended_length_bytes 0xFE
   \<and> length [0xFF, 0xFF :: byte] = extended_length_bytes 0xFE
   \<and> decode_message (Some (0x82 # 0xFE # [0x00, 0x03] @ [1, 2, 3, 4, 0x40, 0x40, 0x40]))
       = decode_message (Some (0x82 # 0xFE # [0xFF, 0xFF] @ [1, 2, 3, 4, 0x40, 0x40, 0x40]))
   \<and> decode_message (Some [0x82, 0xFE, 0xFF, 0xFF, 1, 2, 3, 4, 0x40, 0x40, 0x40])
       = Inr (Some [0x41, 0x42, 0x43])"
  using decode_ignores_extended_length
    [where ext = "[0x00, 0x03]" and lenb = "0xFE" and ext' = "[0xFF, 0xFF]" and ctl = "0x82"
       and rest = "[1, 2, 3, 4, 0x40, 0x40, 0x40]"]
  by (auto simp add: extended_length_bytes_def xor_mask_def)

text \<open>
  C10. A message of exactly one byte makes \<open>decode_message\<close> raise \<open>struct.error\<close>, while
  the empty message gives \<open>None\<close>; a message of two or more bytes never raises.
\<close>

theorem decode_message_short_input:
  "decode_message (Some [b]) = Inl StructError
   \<and> decode_message (Some []) = Inr None
   \<and> (2 \<le> length msg \<longrightarrow> (\<exists>r. decode_message (Some msg) = Inr r))"
  using decode_message_long [of msg]
  by (simp add: decode_message_def)

theorem decode_message_short_input_witness:
  "decode_message (Some [0x81]) = Inl StructError
   \<and> decode_message (Some []) = Inr None
   \<and> 2 \<le> length [0x81, 0x80 :: byte]
   \<and> decode_message (Some [0x81, 0x80]) = Inr (Some [])"
  using decode_message_short_input [where b = "0x81" and msg = "[0x81, 0x80]"]
  by (simp add: decode_message_def)

text \<open>
  C7. The claim as stated fails: the flattened payload is not the counts and the
  length-prefixed fields alone. Every key and value goes through \<open>encode_bytes\<close>, which
  writes a control byte (fin and opcode) before the length field, so for one pair
  \<open>(b"a", b"b")\<close> and no delete key the payload has \<open>0x82\<close> before each field.
\<close>

theorem delta_fields_carry_control_byte:
  "encode_message (MDict (Some [(Bytes [0x61], Bytes [0x62])]) (Some []))
     = Inr ([0x82, 14] @ [0, 0, 0, 1, 0x82, 1, 0x61, 0x82, 1, 0x62, 0, 0, 0, 0])
   \<and> spec_flatten [(Bytes [0x61], Bytes [0x62])] []
       = [0, 0, 0, 1, 1, 0x61, 1, 0x62, 0, 0, 0, 0]
   \<and> flatten_delta (Some [(Bytes [0x61], Bytes [0x62])]) (Some [])
       \<noteq> Inr (spec_flatten [(Bytes [0x61], Bytes [0x62])] [])"
  by (simp add: flatten_delta_def pack_uint_def be_bytes_4 encode_bytes_def
      control_and_body_def length_field_def spec_flatten_def spec_field_def
      spec_length_prefix_def field_of_def)

text \<open>
  C7, amended. When \<open>encode_message\<close> returns a frame for a delta, the frame is one
  binary frame (control byte \<open>0x82\<close>, length field, payload) whose payload is the 4-byte
  big-endian count of pairs, every pair as the frame of its key followed by the frame of
  its value, the 4-byte count of delete keys and the frame of every delete key, in the
  original order; the frame of a field is what \<open>encode_bytes\<close> writes for it: its control
  byte (\<open>0x81\<close> for a \<open>str\<close>, \<open>0x82\<close> for \<open>bytes\<close>), its length field and its bytes. Reading
  that layout back gives the counts and the fields, in order.
\<close>

theorem delta_layout:
  assumes "encode_message (MDict (Some us) (Some ds)) = Inr f"
  shows "\<exists>flat lf.
           f = 0x82 # lf @ flat \<and> length_field (length flat) = Inr lf
         \<and> flat = be_bytes 4 (length us) @ concat (map (\<lambda>(k, v). frame_of k @ frame_of v) us)
                    @ be_bytes 4 (length ds) @ concat (map frame_of ds)
         \<and> (\<forall>p \<in> fst ` set us \<union> snd ` set us \<union> set ds.
               \<exists>plf. length_field (length (snd (field_of p))) = Inr plf
                   \<and> frame_of p = fst (field_of p) # plf @ snd (field_of p))
         \<and> parse_delta flat
             = Some (map (\<lambda>(k, v). (field_of k, field_of v)) us, map field_of ds)"
proof -
  from assms obtain flat where flat: "flatten_delta (Some us) (Some ds) = Inr flat"
    and enc: "encode_bytes (Bytes flat) = Inr f"
    by (auto split: sum.splits)
  from encode_bytes_frame [OF enc] obtain lf where
    lf: "length_field (length flat) = Inr lf" and f: "f = 0x82 # lf @ flat"
    by (auto simp add: field_of_def)
  have fields: "\<exists>plf. length_field (length (snd (field_of p))) = Inr plf
                  \<and> frame_of p = fst (field_of p) # plf @ snd (field_of p)"
    if "p \<in> fst ` set us \<union> snd ` set us \<union> set ds" for p
  proof -
    from flatten_delta_layout(2) [OF flat] that obtain pf where "encode_bytes p = Inr pf"
      by blast
    then show ?thesis
      using encode_bytes_frame [of p pf] by (simp add: frame_of_def)
  qed
  show ?thesis
    using f lf flatten_delta_layout(1) [OF flat] flatten_delta_layout(3) [OF flat] fields
    by blast
qed

theorem delta_layout_witness:
  "encode_message (MDict (Some [(Bytes [0x61], Str [0x62])]) (Some [Bytes [0x63]]))
     = Inr ([0x82, 17] @ [0, 0, 0, 1, 0x82, 1, 0x61, 0x81, 1, 0x62, 0, 0, 0, 1, 0x82, 1, 0x63])
   \<and> parse_delta [0, 0, 0, 1, 0x82, 1, 0x61, 0x81, 1, 0x62, 0, 0, 0, 1, 0x82, 1, 0x63]
       = Some ([((0x82, [0x61]), (0x81, [0x62]))], [(0x82, [0x63])])"
  using delta_layout [of "[(Bytes [0x61], Str [0x62])]" "[Bytes [0x63]]"
      "[0x82, 17] @ [0, 0, 0, 1, 0x82, 1, 0x61, 0x81, 1, 0x62, 0, 0, 0, 1, 0x82, 1, 0x63]"]
  by (simp add: flatten_delta_def pack_uint_def be_bytes_4 encode_bytes_def
      control_and_body_def length_field_def field_of_def utf8_char_def frame_of_def)

section \<open>Properties of the connection session\<close>

text \<open>
  C3. The claim as stated fails after the first step of a session with a key-bearing
  request: the 101 response has been sent, so the handshake has succeeded, the loop has
  not been entered, let alone left, the connect callback is about to run, and the
  client is not in the registry.
\<close>

theorem registry_misses_client_during_connect_callback:
  "loc (exec sample_config 1 (start [] [Data sample_request])) = ConnectCallback
   \<and> handshake_succeeded (exec sample_config 1 (start [] [Data sample_request]))
   \<and> \<not> loop_exited (loc (exec sample_config 1 (start [] [Data sample_request])))
   \<and> client sample_config \<notin> set (clients (exec sample_config 1 (start [] [Data sample_request])))
   \<and> \<not> spec_registry_invariant sample_config
         (exec sample_config 1 (start [] [Data sample_request]))"
  by (simp add: step_def start_def find_key_sample_request spec_registry_invariant_def
      handshake_succeeded_def startswith_STR_HANDSHAKE)

text \<open>
  C3, amended. At every position of a session that no exception has ended, the client
  is in the registry exactly from the registry add to the registry remove, that is in
  the receive loop and just after it. The add comes after the 101 response and after
  the connect callback: while the connect callback runs and until the add, the
  handshake has succeeded (the 101 response has been sent) and the client is not in
  the registry. The callback has run once (when there is one) from the add on and not
  at all before; the remove and the close come after the loop; the socket is closed
  only on the return of the accept path, and by then the registry is what it was at
  the start. A session that an exception ends before the 101 response is sent leaves
  the client out of the registry.
\<close>

theorem registry_membership:
  assumes "client cfg \<notin> set cs" and "s = exec cfg n (start cs rs)"
  shows "(is_raised (loc s) \<and> (handshake_succeeded s \<or> client cfg \<notin> set (clients s))) \<or>
         ((client cfg \<in> set (clients s) \<longleftrightarrow> in_receive_loop (loc s) \<or> loc s = RegistryRemove)
          \<and> (in_receive_loop (loc s) \<longrightarrow>
                handshake_succeeded s
                \<and> connect_calls s = (if connection_callback cfg then 1 else 0))
          \<and> (loc s = ConnectCallback \<or> loc s = RegistryAdd \<longrightarrow>
                handshake_succeeded s \<and> client cfg \<notin> set (clients s) \<and> clients s = cs)
          \<and> (loc s = RegistryAdd \<longrightarrow>
                connect_calls s = (if connection_callback cfg then 1 else 0))
          \<and> (loc s = RegistryRemove \<or> loc s = SocketClose \<longrightarrow>
                handshake_succeeded s
                \<and> connect_calls s = (if connection_callback cfg then 1 else 0))
          \<and> (loc s = Handshaking \<longrightarrow> \<not> handshake_succeeded s)
          \<and> (loc s = Handshaking \<or> loc s = ConnectCallback \<longrightarrow> connect_calls s = 0)
          \<and> (loc s = Returned \<and> handshake_succeeded s \<longrightarrow> sock_closed s \<and> clients s = cs)
          \<and> (sock_closed s \<longrightarrow> loc s = Returned \<and> handshake_succeeded s))"
proof -
  have "session_inv cfg cs s"
    unfolding assms(2) by (rule exec_inv [OF assms(1) start_inv])
  then show ?thesis
    using assms(1) by (cases "loc s") (auto simp add: session_inv_def)
qed

theorem registry_membership_witness:
  "client sample_config \<notin> set []
   \<and> loc (exec sample_config 1 (start [] [Data sample_request])) = ConnectCallback
   \<and> handshake_succeeded (exec sample_config 1 (start [] [Data sample_request]))
   \<and> clients (exec sample_config 1 (start [] [Data sample_request])) = []
   \<and> connect_calls (exec sample_config 1 (start [] [Data sample_request])) = 0
   \<and> loc (exec sample_config 3 (start [] [Data sample_request])) = Receiving
   \<and> handshake_succeeded (exec sample_config 3 (start [] [Data sample_request]))
   \<and> clients (exec sample_config 3 (start [] [Data sample_request])) = [7]
   \<and> connect_calls (exec sample_config 3 (start [] [Data sample_request])) = 1"
  using registry_membership [of sample_config "[]" _ 1 "[Data sample_request]"]
    registry_membership [of sample_config "[]" _ 3 "[Data sample_request]"]
  by (simp add: step_def start_def find_key_sample_request numeral_3_eq_3 sample_config_def
      handshake_succeeded_def startswith_STR_HANDSHAKE)

text \<open>
  C4. The claim as stated fails when a client sends the close frame: the decoder
  returns \<open>None\<close>, and the message callback is invoked with \<open>None\<close> before the loop is left.
\<close>

theorem message_callback_gets_close_sentinel:
  "decode_message (Some [0x88, 0x82, 1, 2, 3, 4, 0x02, 0xEB]) = Inr None
   \<and> message_calls (exec sample_config 9
        (start [] [Data sample_request, Data [0x88, 0x82, 1, 2, 3, 4, 0x02, 0xEB]])) = [None]
   \<and> loc (exec sample_config 9
        (start [] [Data sample_request, Data [0x88, 0x82, 1, 2, 3, 4, 0x02, 0xEB]])) = Returned"
proof -
  have d: "decode_message (Some [0x88, 0x82, 1, 2, 3, 4, 0x02, 0xEB]) = Inr None"
    by (simp add: decode_message_def)
  have n: "(9 :: nat) = Suc (Suc (Suc (Suc (Suc (Suc (Suc (Suc (Suc 0))))))))"
    by simp
  show ?thesis
    unfolding n
    by (simp add: d step_def start_def find_key_sample_request sample_config_def)
qed

text \<open>
  C4, amended. An iteration of the receive loop whose read and decode return invokes
  the message callback (when there is one) with the decoded result, \<open>None\<close> included;
  after that the session leaves the loop when the result is \<open>None\<close> and stays in it
  otherwise.
\<close>

theorem receive_loop_iteration:
  assumes "loc s = Receiving" and "inbox s = Data m # later"
    and "decode_message (Some m) = Inr r"
  shows "exec cfg 4 s =
           s\<lparr>inbox := later,
             message_calls := message_calls s @ (if message_callback cfg then [r] else []),
             loc := (if r = None then RegistryRemove else Receiving)\<rparr>"
proof -
  have n: "(4 :: nat) = Suc (Suc (Suc (Suc 0)))"
    by simp
  show ?thesis
    unfolding n using assms by (simp add: step_def)
qed

theorem receive_loop_iteration_witness:
  "exec sample_config 4
     \<lparr>loc = Receiving, inbox = [Data [0x82, 0x83, 1, 2, 3, 4, 0x40, 0x40, 0x40], Data []],
      clients = [7], sent = [], connect_calls = 1, message_calls = [], sock_closed = False\<rparr>
   = \<lparr>loc = Receiving, inbox = [Data []], clients = [7], sent = [], connect_calls = 1,
      message_calls = [Some [0x41, 0x42, 0x43]], sock_closed = False\<rparr>
   \<and> exec sample_config 4
     \<lparr>loc = Receiving, inbox = [Data []],
      clients = [7], sent = [], connect_calls = 1, message_calls = [], sock_closed = False\<rparr>
   = \<lparr>loc = RegistryRemove, inbox = [], clients = [7], sent = [], connect_calls = 1,
      message_calls = [None], sock_closed = False\<rparr>"
  using receive_loop_iteration
    [where s = "\<lparr>loc = Receiving, inbox = [Data [0x82, 0x83, 1, 2, 3, 4, 0x40, 0x40, 0x40], Data []],
      clients = [7], sent = [], connect_calls = 1, message_calls = [], sock_closed = False\<rparr>"
      and m = "[0x82, 0x83, 1, 2, 3, 4, 0x40, 0x40, 0x40]" and later = "[Data []]"
      and r = "Some [0x41, 0x42, 0x43]" and cfg = sample_config]
    receive_loop_iteration
    [where s = "\<lparr>loc = Receiving, inbox = [Data []],
      clients = [7], sent = [], connect_calls = 1, message_calls = [], sock_closed = False\<rparr>"
      and m = "[]" and later = "[]" and r = None and cfg = sample_config]
  by (simp add: decode_message_def sample_config_def)

text \<open>
  C6. Handshake rejection. When no line of the request starts with \<open>Sec-WebSocket-Key\<close>,
  the session sends the reject response and nothing else, leaves the registry as it
  was, invokes no callback and returns; it is never in the receive loop.
\<close>

theorem handshake_rejection:
  assumes "\<forall>line \<in> set (splitlines request). \<not> startswith line (ascii ''Sec-WebSocket-Key'')"
  shows "exec cfg (Suc n) (start cs (Data request # later)) =
           \<lparr>loc = Returned, inbox = later, clients = cs, sent = [STR_REJECT],
            connect_calls = 0, message_calls = [], sock_closed = False\<rparr>
       \<and> \<not> in_receive_loop (loc (exec cfg k (start cs (Data request # later))))"
proof -
  have first: "step cfg (start cs (Data request # later)) =
          Some \<lparr>loc = Returned, inbox = later, clients = cs, sent = [STR_REJECT],
                connect_calls = 0, message_calls = [], sock_closed = False\<rparr>"
    by (simp add: step_def start_def find_key_none [OF assms])
  have last: "step cfg \<lparr>loc = Returned, inbox = later, clients = cs, sent = [STR_REJECT],
                connect_calls = 0, message_calls = [], sock_closed = False\<rparr> = None"
    by (simp add: step_def)
  have run: "exec cfg (Suc j) (start cs (Data request # later)) =
           \<lparr>loc = Returned, inbox = later, clients = cs, sent = [STR_REJECT],
            connect_calls = 0, message_calls = [], sock_closed = False\<rparr>" for j
    using first last by (simp add: exec_stuck)
  have "\<not> in_receive_loop (loc (exec cfg k (start cs (Data request # later))))"
  proof (cases k)
    case 0
    then show ?thesis by (simp add: start_def)
  next
    case (Suc j)
    then show ?thesis by (simp only: run) simp
  qed
  then show ?thesis
    using run [of n] by simp
qed

theorem handshake_rejection_witness:
  "splitlines keyless_request = [ascii ''GET /chat HTTP/1.1'', ascii ''Host: example'', []]
   \<and> exec sample_config 5 (start [3] [Data keyless_request, Data []]) =
       \<lparr>loc = Returned, inbox = [Data []], clients = [3],
        sent = [ascii ''HTTP/1.1 400 Bad Request'' @ [0x0D, 0x0A, 0x0D, 0x0A]],
        connect_calls = 0, message_calls = [], sock_closed = False\<rparr>"
proof -
  have l: "splitlines keyless_request = [ascii ''GET /chat HTTP/1.1'', ascii ''Host: example'', []]"
    by (simp add: keyless_request_def splitlines_def ascii_def crlf_def)
  have n: "(5 :: nat) = Suc 4"
    by simp
  have "\<forall>line \<in> set (splitlines keyless_request). \<not> startswith line (ascii ''Sec-WebSocket-Key'')"
    unfolding l by (simp add: startswith_def ascii_def)
  from handshake_rejection [OF this, of sample_config 4 "[3]" "[Data []]" 0] l show ?thesis
    unfolding n by (simp add: STR_REJECT_def crlf_def)
qed

text \<open>
  C8. Accept token. When the first line of the request that starts with
  \<open>Sec-WebSocket-Key\<close> has a colon, the key is what follows the colon, stripped, and the
  session sends the 101 response whose \<open>Sec-WebSocket-Accept\<close> value is the base64
  encoding of the SHA-1 digest of the key followed by the GUID, ended by a blank line.
\<close>

theorem handshake_accept_token:
  assumes "find (\<lambda>l. startswith l (ascii ''Sec-WebSocket-Key'')) (splitlines request) = Some line"
    and "index_of 0x3A line = Some i"
    and "k = strip (drop (i + 1) line)"
  shows "step cfg (start cs (Data request # later)) =
           Some \<lparr>loc = ConnectCallback, inbox = later, clients = cs,
                 sent = [ascii ''HTTP/1.1 101 Web Socket Protocol Handshake'' @ [0x0D, 0x0A]
                           @ ascii ''Upgrade: websocket'' @ [0x0D, 0x0A]
                           @ ascii ''Connection: Upgrade'' @ [0x0D, 0x0A]
                           @ ascii ''Sec-WebSocket-Accept: ''
                           @ b64encode
                               (sha1 cfg (k @ ascii ''258EAFA5-E914-47DA-95CA-C5AB0DC85B11''))
                           @ [0x0D, 0x0A, 0x0D, 0x0A]],
                 connect_calls = 0, message_calls = [], sock_closed = False\<rparr>"
  using find_key_first [OF assms(1,2)]
  by (simp add: step_def start_def assms(3) STR_HANDSHAKE_def MAGIC_def crlf_def)

theorem handshake_accept_token_witness:
  "find (\<lambda>l. startswith l (ascii ''Sec-WebSocket-Key'')) (splitlines sample_request)
     = Some (ascii ''Sec-WebSocket-Key: dGhlIHNhbXBsZSBub25jZQ=='')
   \<and> index_of 0x3A (ascii ''Sec-WebSocket-Key: dGhlIHNhbXBsZSBub25jZQ=='') = Some 17
   \<and> strip (drop (17 + 1) (ascii ''Sec-WebSocket-Key: dGhlIHNhbXBsZSBub25jZQ==''))
       = ascii ''dGhlIHNhbXBsZSBub25jZQ==''
   \<and> sent (the (step sample_config (start [] [Data sample_request]))) =
       [ascii ''HTTP/1.1 101 Web Socket Protocol Handshake'' @ [0x0D, 0x0A]
          @ ascii ''Upgrade: websocket'' @ [0x0D, 0x0A]
          @ ascii ''Connection: Upgrade'' @ [0x0D, 0x0A]
          @ ascii ''Sec-WebSocket-Accept: ''
          @ b64encode (take 20 (ascii ''dGhlIHNhbXBsZSBub25jZQ==''
                                  @ ascii ''258EAFA5-E914-47DA-95CA-C5AB0DC85B11''))
          @ [0x0D, 0x0A, 0x0D, 0x0A]]"
proof -
  have f: "find (\<lambda>l. startswith l (ascii ''Sec-WebSocket-Key'')) (splitlines sample_request)
             = Some (ascii ''Sec-WebSocket-Key: dGhlIHNhbXBsZSBub25jZQ=='')"
    by (simp add: sample_request_def splitlines_def ascii_def crlf_def startswith_def)
  have i: "index_of 0x3A (ascii ''Sec-WebSocket-Key: dGhlIHNhbXBsZSBub25jZQ=='') = Some 17"
    by (simp add: ascii_def)
  have k: "ascii ''dGhlIHNhbXBsZSBub25jZQ==''
             = strip (drop (17 + 1) (ascii ''Sec-WebSocket-Key: dGhlIHNhbXBsZSBub25jZQ==''))"
    by (simp add: ascii_def strip_def is_space_def)
  from handshake_accept_token [OF f i k, of sample_config "[]" "[]"] f i k show ?thesis
    by (simp add: sample_config_def)
qed

end
